theory Spec2Isabelle
  imports Complex_Main
begin

section \<open>Chip circuit simulator (project2.cpp)\<close>

text \<open>
  The program keeps every chip in the array \<open>allChips\<close> and links chips by raw
  pointers. In this development a pointer to a chip is the index of the chip in
  \<open>allChips\<close> (chips are created once and never moved or freed before the end), and a
  pointer that may be null is a \<open>nat option\<close>, \<open>None\<close> being \<open>nullptr\<close>.
  Dereferencing \<open>nullptr\<close> is the one way the program can fail; it is the error
  \<open>NullDeref\<close>. A call of \<open>compute\<close> that never returns (a cyclic circuit) is the
  value \<open>None\<close> of the outer option.
\<close>

subsection \<open>Double arithmetic\<close>

text \<open>
  The fields \<open>inputValue\<close> and \<open>result\<close> are C++ doubles. Their arithmetic is a
  parameter of the model: the operations \<open>+\<close>, \<open>-\<close>, \<open>*\<close>, \<open>/\<close>, unary minus, the
  constant \<open>0\<close> and the test \<open>x != 0\<close>, on a type \<open>'v\<close> of values.
\<close>

record 'v arith =
  dadd :: "'v \<Rightarrow> 'v \<Rightarrow> 'v"
  dsub :: "'v \<Rightarrow> 'v \<Rightarrow> 'v"
  dmul :: "'v \<Rightarrow> 'v \<Rightarrow> 'v"
  ddiv :: "'v \<Rightarrow> 'v \<Rightarrow> 'v"
  dneg :: "'v \<Rightarrow> 'v"
  dzero :: "'v"
  dnonzero :: "'v \<Rightarrow> bool"

text \<open>The instance on which the model is run for concrete circuits: the real numbers,
  with which double arithmetic agrees on the small integers used there.\<close>

definition real_arith :: "real arith" where
  "real_arith = \<lparr> dadd = (+), dsub = (-), dmul = (*), ddiv = (/), dneg = uminus,
                  dzero = 0, dnonzero = (\<lambda>x. x \<noteq> 0) \<rparr>"

subsection \<open>class Chip\<close>

datatype error = NullDeref

record 'v chip =
  chipType :: char
  chipId :: string
  input1 :: "nat option"
  input2 :: "nat option"
  output_chip :: "nat option"
  inputValue :: "'v"
  result :: "'v"

text \<open>One line written to \<open>cout\<close>: a text, or a text followed by a double.\<close>

datatype 'v line = Text string | TextNum string 'v

record 'v state =
  allChips :: "'v chip list"
  cout :: "'v line list"

definition bindE :: "error + 'a \<Rightarrow> ('a \<Rightarrow> error + 'b) \<Rightarrow> error + 'b" where
  "bindE r f = (case r of Inl e \<Rightarrow> Inl e | Inr x \<Rightarrow> f x)"

definition emit :: "'v line \<Rightarrow> 'v state \<Rightarrow> 'v state" where
  "emit l st = st\<lparr>cout := cout st @ [l]\<rparr>"

text \<open>The constructor (lines 65-71) sets the type, the id and the three pointers;
  \<open>inputValue\<close> and \<open>result\<close> are left uninitialised, their content is the
  parameter \<open>junk\<close>.\<close>

definition new_Chip :: "'v \<Rightarrow> char \<Rightarrow> string \<Rightarrow> 'v chip" where
  "new_Chip junk type cid =
     \<lparr> chipType = type, chipId = cid, input1 = None, input2 = None, output_chip = None,
       inputValue = junk, result = junk \<rparr>"

definition setOutput :: "nat \<Rightarrow> nat option \<Rightarrow> 'v state \<Rightarrow> 'v state" where
  "setOutput this outputChip st =
     st\<lparr>allChips := (allChips st)[this := (allChips st ! this)\<lparr>output_chip := outputChip\<rparr>]\<rparr>"

text \<open>\<open>setInput1\<close> (lines 73-76): \<open>input1 = inputChip; inputChip->setOutput(this)\<close>.\<close>

definition setInput1 :: "nat \<Rightarrow> nat option \<Rightarrow> 'v state \<Rightarrow> error + 'v state" where
  "setInput1 this inputChip st =
     (let st1 = st\<lparr>allChips := (allChips st)[this := (allChips st ! this)\<lparr>input1 := inputChip\<rparr>]\<rparr>
      in case inputChip of
           None \<Rightarrow> Inl NullDeref
         | Some p \<Rightarrow> Inr (setOutput p (Some this) st1))"

definition setInput2 :: "nat \<Rightarrow> nat option \<Rightarrow> 'v state \<Rightarrow> error + 'v state" where
  "setInput2 this inputChip st =
     (let st1 = st\<lparr>allChips := (allChips st)[this := (allChips st ! this)\<lparr>input2 := inputChip\<rparr>]\<rparr>
      in case inputChip of
           None \<Rightarrow> Inl NullDeref
         | Some p \<Rightarrow> Inr (setOutput p (Some this) st1))"

definition setInputValue :: "nat \<Rightarrow> 'v \<Rightarrow> 'v state \<Rightarrow> 'v state" where
  "setInputValue this v st =
     st\<lparr>allChips := (allChips st)[this := (allChips st ! this)\<lparr>inputValue := v\<rparr>]\<rparr>"

definition setResult :: "nat \<Rightarrow> 'v \<Rightarrow> 'v state \<Rightarrow> 'v state" where
  "setResult this v st =
     st\<lparr>allChips := (allChips st)[this := (allChips st ! this)\<lparr>result := v\<rparr>]\<rparr>"

text \<open>\<open>p->getResult()\<close> and \<open>p->getId()\<close> through a pointer that may be null.\<close>

definition getResult :: "'v state \<Rightarrow> nat option \<Rightarrow> error + 'v" where
  "getResult st p = (case p of None \<Rightarrow> Inl NullDeref | Some q \<Rightarrow> Inr (result (allChips st ! q)))"

definition getId :: "'v state \<Rightarrow> nat option \<Rightarrow> error + string" where
  "getId st p = (case p of None \<Rightarrow> Inl NullDeref | Some q \<Rightarrow> Inr (chipId (allChips st ! q)))"

text \<open>The second half of \<open>compute\<close> (lines 99-121): the operation of the chip, once its
  inputs have been computed. An addition, subtraction or multiplication reads
  \<open>input1->getResult()\<close> and \<open>input2->getResult()\<close>; a division reads
  \<open>input2->getResult()\<close> first and \<open>input1->getResult()\<close> only when that is not zero;
  any other type, an output chip among them, has no branch.\<close>

definition binop :: "('v \<Rightarrow> 'v \<Rightarrow> 'v) \<Rightarrow> nat \<Rightarrow> 'v state \<Rightarrow> error + 'v state" where
  "binop f this st =
     bindE (getResult st (input1 (allChips st ! this))) (\<lambda>a.
     bindE (getResult st (input2 (allChips st ! this))) (\<lambda>b.
       Inr (setResult this (f a b) st)))"

definition operate :: "'v arith \<Rightarrow> nat \<Rightarrow> 'v state \<Rightarrow> error + 'v state" where
  "operate ar this st =
     (let c = allChips st ! this in
      if chipType c = CHR ''A'' then binop (dadd ar) this st
      else if chipType c = CHR ''S'' then binop (dsub ar) this st
      else if chipType c = CHR ''M'' then binop (dmul ar) this st
      else if chipType c = CHR ''D'' then
        bindE (getResult st (input2 c)) (\<lambda>b.
          if dnonzero ar b then
            bindE (getResult st (input1 c)) (\<lambda>a. Inr (setResult this (ddiv ar a b) st))
          else
            Inr (setResult this (dzero ar)
                  (emit (Text (''Error: Division by zero in chip '' @ chipId c)) st)))
      else if chipType c = CHR ''N'' then
        bindE (getResult st (input1 c)) (\<lambda>a.
          if dnonzero ar a then Inr (setResult this (dneg ar a) st) else Inr st)
      else Inr st)"

text \<open>\<open>Chip::compute\<close> (lines 88-122). The recursion follows the input pointers and is
  not bounded by anything in the code, so the function is partial.\<close>

partial_function (option) compute ::
  "'v arith \<Rightarrow> nat \<Rightarrow> 'v state \<Rightarrow> (error + 'v state) option" where
  "compute ar this st =
     (if chipType (allChips st ! this) = CHR ''I'' then
        Some (Inr (setResult this (inputValue (allChips st ! this)) st))
      else
        Option.bind
          (case input1 (allChips st ! this) of
             None \<Rightarrow> Some (Inr st)
           | Some p \<Rightarrow> compute ar p st)
          (\<lambda>r1. case r1 of
             Inl e \<Rightarrow> Some (Inl e)
           | Inr st1 \<Rightarrow>
               Option.bind
                 (case input2 (allChips st1 ! this) of
                    None \<Rightarrow> Some (Inr st1)
                  | Some p \<Rightarrow> compute ar p st1)
                 (\<lambda>r2. case r2 of
                    Inl e \<Rightarrow> Some (Inl e)
                  | Inr st2 \<Rightarrow> Some (operate ar this st2))))"

text \<open>\<open>Chip::display\<close> (lines 125-138): the line printed for a chip. For a chip that is
  neither an input nor an output chip, \<open>output->getId()\<close> is not guarded.\<close>

definition idOrNone :: "'v state \<Rightarrow> nat option \<Rightarrow> string" where
  "idOrNone st p = (case p of None \<Rightarrow> ''None'' | Some q \<Rightarrow> chipId (allChips st ! q))"

definition display :: "nat \<Rightarrow> 'v state \<Rightarrow> error + 'v state" where
  "display this st =
     (let c = allChips st ! this in
      if chipType c = CHR ''I'' then
        Inr (emit (Text (chipId c @ '', Output = '' @ idOrNone st (output_chip c))) st)
      else if chipType c = CHR ''O'' then
        Inr (emit (Text (chipId c @ '', Input 1 = '' @ idOrNone st (input1 c))) st)
      else
        bindE (getId st (output_chip c)) (\<lambda>oid.
          Inr (emit (Text (chipId c @ '', Input 1 = '' @ idOrNone st (input1 c)
                           @ '', Input 2 = '' @ idOrNone st (input2 c)
                           @ '', Output = '' @ oid)) st)))"

subsection \<open>main\<close>

text \<open>Step 3 (lines 162-168): one chip per id, its type the first character of the id
  (\<open>chipId[0]\<close> of an empty string is the null character).\<close>

definition typeOf :: "string \<Rightarrow> char" where
  "typeOf cid = (case cid of [] \<Rightarrow> CHR 0x00 | c # _ \<Rightarrow> c)"

definition init :: "'v \<Rightarrow> string list \<Rightarrow> 'v state" where
  "init junk ids = \<lparr> allChips = map (\<lambda>cid. new_Chip junk (typeOf cid) cid) ids, cout = [] \<rparr>"

text \<open>The search loops of \<open>main\<close>. The loops of the commands \<open>I\<close> and \<open>O\<close> stop at the
  first chip with the id (\<open>break\<close>); the loop of the command \<open>A\<close> runs to the end and
  keeps the last one.\<close>

definition findFirst :: "string \<Rightarrow> 'v state \<Rightarrow> nat option" where
  "findFirst cid st =
     List.find (\<lambda>j. chipId (allChips st ! j) = cid) [0..<length (allChips st)]"

definition findLast :: "string \<Rightarrow> 'v state \<Rightarrow> nat option" where
  "findLast cid st =
     List.find (\<lambda>j. chipId (allChips st ! j) = cid) (rev [0..<length (allChips st)])"

datatype 'v command =
    Connect string string
  | SetInput string 'v
  | QueryOutput string
  | Unrecognised string

text \<open>Command \<open>A\<close> (lines 179-208).\<close>

definition connect :: "string \<Rightarrow> string \<Rightarrow> 'v state \<Rightarrow> error + 'v state" where
  "connect inputId outputId st =
     (let inputChip = findLast inputId st; outputChip = findLast outputId st in
      case outputChip of
        None \<Rightarrow> Inl NullDeref
      | Some oc \<Rightarrow>
          (let t = chipType (allChips st ! oc) in
           if t = CHR ''N'' \<or> t = CHR ''O'' then setInput1 oc inputChip st
           else if t = CHR ''A'' \<or> t = CHR ''S'' \<or> t = CHR ''M'' \<or> t = CHR ''D'' then
             (if input1 (allChips st ! oc) = None then setInput1 oc inputChip st
              else setInput2 oc inputChip st)
           else Inr st))"

text \<open>Command \<open>I\<close> (lines 209-221).\<close>

definition setInput :: "string \<Rightarrow> 'v \<Rightarrow> 'v state \<Rightarrow> 'v state" where
  "setInput cid v st =
     (case findFirst cid st of None \<Rightarrow> st | Some j \<Rightarrow> setInputValue j v st)"

text \<open>Command \<open>O\<close> (lines 222-240).\<close>

definition queryOutput :: "'v arith \<Rightarrow> string \<Rightarrow> 'v state \<Rightarrow> (error + 'v state) option" where
  "queryOutput ar outputChipId st =
     (let st0 = emit (Text ''Computation Starts '') st in
      case findFirst outputChipId st0 of
        None \<Rightarrow> Some (Inr st0)
      | Some j \<Rightarrow>
          Option.bind (compute ar j st0) (\<lambda>r. case r of
             Inl e \<Rightarrow> Some (Inl e)
           | Inr st1 \<Rightarrow>
               if chipType (allChips st0 ! j) = CHR ''O'' then
                 Some (bindE (getResult st1 (input1 (allChips st1 ! j))) (\<lambda>v.
                   Inr (emit (TextNum ''The output value from this circuit is '' v) st1)))
               else
                 Some (Inr (emit (TextNum ''The output value from this circuit is ''
                                    (result (allChips st1 ! j))) st1))))"

definition exec :: "'v arith \<Rightarrow> 'v command \<Rightarrow> 'v state \<Rightarrow> (error + 'v state) option" where
  "exec ar cmd st =
     (case cmd of
        Connect inputId outputId \<Rightarrow> Some (connect inputId outputId st)
      | SetInput cid v \<Rightarrow> Some (Inr (setInput cid v st))
      | QueryOutput cid \<Rightarrow> queryOutput ar cid st
      | Unrecognised _ \<Rightarrow> Some (Inr st))"

text \<open>Step 5 (lines 175-241): the commands in order.\<close>

fun run :: "'v arith \<Rightarrow> 'v command list \<Rightarrow> 'v state \<Rightarrow> (error + 'v state) option" where
  "run ar [] st = Some (Inr st)"
| "run ar (cmd # cmds) st =
     Option.bind (exec ar cmd st) (\<lambda>r. case r of
        Inl e \<Rightarrow> Some (Inl e)
      | Inr st' \<Rightarrow> run ar cmds st')"

text \<open>Step 6 (lines 244-254): the header, then \<open>display\<close> for every chip whose id is not
  \<open>O50\<close>, then \<open>display\<close> for every chip of type \<open>O\<close>.\<close>

fun displayAll :: "nat list \<Rightarrow> 'v state \<Rightarrow> error + 'v state" where
  "displayAll [] st = Inr st"
| "displayAll (i # is) st = bindE (display i st) (displayAll is)"

definition showConnections :: "'v state \<Rightarrow> error + 'v state" where
  "showConnections st =
     (let n = length (allChips st);
          st0 = emit (Text ''***** Showing the connections that were established'') st
      in bindE (displayAll (filter (\<lambda>i. chipId (allChips st ! i) \<noteq> ''O50'') [0..<n]) st0)
           (displayAll (filter (\<lambda>i. chipType (allChips st ! i) = CHR ''O'') [0..<n])))"

definition main :: "'v arith \<Rightarrow> 'v \<Rightarrow> string list \<Rightarrow> 'v command list \<Rightarrow> (error + 'v line list) option" where
  "main ar junk ids cmds =
     Option.bind (run ar cmds (init junk ids)) (\<lambda>r. case r of
        Inl e \<Rightarrow> Some (Inl e)
      | Inr st \<Rightarrow> Some (bindE (showConnections st) (\<lambda>st'. Inr (cout st'))))"

subsection \<open>Notions used to state and prove the properties\<close>

text \<open>The first half of \<open>compute\<close> for a chip that is not an input chip (lines 96-97):
  \<open>if (input1) input1->compute(); if (input2) input2->compute();\<close>.\<close>

definition computeInputs :: "'v arith \<Rightarrow> nat \<Rightarrow> 'v state \<Rightarrow> (error + 'v state) option" where
  "computeInputs ar this st =
     Option.bind
       (case input1 (allChips st ! this) of
          None \<Rightarrow> Some (Inr st)
        | Some p \<Rightarrow> compute ar p st)
       (\<lambda>r1. case r1 of
          Inl e \<Rightarrow> Some (Inl e)
        | Inr st1 \<Rightarrow>
            (case input2 (allChips st1 ! this) of
               None \<Rightarrow> Some (Inr st1)
             | Some p \<Rightarrow> compute ar p st1))"

text \<open>Everything of a chip but its \<open>result\<close>.\<close>

definition wiring :: "'v chip \<Rightarrow> char \<times> string \<times> nat option \<times> nat option \<times> nat option \<times> 'v" where
  "wiring c = (chipType c, chipId c, input1 c, input2 c, output_chip c, inputValue c)"

definition same_wiring :: "'v state \<Rightarrow> 'v state \<Rightarrow> bool" where
  "same_wiring st st' \<longleftrightarrow>
     length (allChips st') = length (allChips st)
     \<and> (\<forall>i. wiring (allChips st' ! i) = wiring (allChips st ! i))"

text \<open>\<open>st'\<close> comes from \<open>st\<close> by writing results and printing lines only.\<close>

definition extends :: "'v state \<Rightarrow> 'v state \<Rightarrow> bool" where
  "extends st st' \<longleftrightarrow> same_wiring st st' \<and> (\<exists>ds. cout st' = cout st @ ds)"

text \<open>\<open>feeds st p q\<close>: the call \<open>p->compute()\<close> calls \<open>q->compute()\<close>.\<close>

definition feeds :: "'v state \<Rightarrow> nat \<Rightarrow> nat \<Rightarrow> bool" where
  "feeds st p q \<longleftrightarrow>
     chipType (allChips st ! p) \<noteq> CHR ''I''
     \<and> (input1 (allChips st ! p) = Some q \<or> input2 (allChips st ! p) = Some q)"

text \<open>What a call \<open>p->compute()\<close> that returns has done: it has kept the wiring, its
  tree of calls is finite, and it has written the result of no chip outside that tree.\<close>

definition returned :: "'v state \<Rightarrow> nat \<Rightarrow> 'v state \<Rightarrow> bool" where
  "returned st p st' \<longleftrightarrow>
     extends st st'
     \<and> Wellfounded.accp (\<lambda>q p. feeds st p q) p
     \<and> (\<forall>x. result (allChips st' ! x) \<noteq> result (allChips st ! x) \<longrightarrow> (feeds st)\<^sup>*\<^sup>* p x)"

subsection \<open>Example circuits\<close>

text \<open>Small circuits on which the model is run. Each is the state reached from the
  initial state by the commands named in the lemma \<open>..._reached\<close> below.\<close>

definition adder :: "real state" where
  "adder = \<lparr> allChips =
      [(new_Chip 0 CHR ''I'' ''I1'')\<lparr>output_chip := Some 2, inputValue := 3\<rparr>,
       (new_Chip 0 CHR ''I'' ''I2'')\<lparr>output_chip := Some 2, inputValue := 4\<rparr>,
       (new_Chip 0 CHR ''A'' ''A1'')\<lparr>input1 := Some 0, input2 := Some 1\<rparr>],
     cout = [] \<rparr>"

definition divider :: "real state" where
  "divider = \<lparr> allChips =
      [(new_Chip 9 CHR ''I'' ''I1'')\<lparr>output_chip := Some 2, inputValue := 6\<rparr>,
       (new_Chip 9 CHR ''I'' ''I2'')\<lparr>output_chip := Some 2, inputValue := 0\<rparr>,
       (new_Chip 9 CHR ''D'' ''D1'')\<lparr>input1 := Some 0, input2 := Some 1\<rparr>],
     cout = [] \<rparr>"

definition negator :: "real state" where
  "negator = \<lparr> allChips =
      [(new_Chip 9 CHR ''I'' ''I1'')\<lparr>output_chip := Some 1, inputValue := 0\<rparr>,
       (new_Chip 9 CHR ''N'' ''N1'')\<lparr>input1 := Some 0\<rparr>],
     cout = [] \<rparr>"

definition probe :: "real state" where
  "probe = \<lparr> allChips =
      [(new_Chip 9 CHR ''I'' ''I1'')\<lparr>output_chip := Some 1, inputValue := 5\<rparr>,
       (new_Chip 9 CHR ''O'' ''O1'')\<lparr>input1 := Some 0\<rparr>],
     cout = [] \<rparr>"

section \<open>Basic facts\<close>

lemma bindE_simps [simp]:
  "bindE (Inl e) f = Inl e" "bindE (Inr x) f = f x"
  by (simp_all add: bindE_def)

lemma emit_simps [simp]:
  "allChips (emit l st) = allChips st" "cout (emit l st) = cout st @ [l]"
  by (simp_all add: emit_def)

lemma compute_unfold:
  "compute ar this st =
     (if chipType (allChips st ! this) = CHR ''I'' then
        Some (Inr (setResult this (inputValue (allChips st ! this)) st))
      else
        Option.bind (computeInputs ar this st) (\<lambda>r2. case r2 of
           Inl e \<Rightarrow> Some (Inl e)
         | Inr st2 \<Rightarrow> Some (operate ar this st2)))"
  by (subst compute.simps)
     (auto simp: computeInputs_def split: option.splits sum.splits bind_splits)

lemma same_wiring_refl [simp]: "same_wiring st st"
  by (simp add: same_wiring_def)

lemma same_wiring_trans: "same_wiring a b \<Longrightarrow> same_wiring b c \<Longrightarrow> same_wiring a c"
  by (simp add: same_wiring_def)

lemma same_wiring_emit [simp]: "same_wiring st (emit l st)"
  by (simp add: same_wiring_def)

lemma wiring_setResult: "wiring (allChips (setResult p v st) ! i) = wiring (allChips st ! i)"
proof (cases "p < length (allChips st)")
  case True
  then show ?thesis
    by (cases "i = p") (simp_all add: setResult_def wiring_def)
next
  case False
  then show ?thesis by (simp add: setResult_def list_update_beyond)
qed

lemma same_wiring_setResult [simp]: "same_wiring st (setResult p v st)"
  by (simp add: same_wiring_def wiring_setResult) (simp add: setResult_def)

lemma extends_refl [simp]: "extends st st"
  by (simp add: extends_def)

lemma extends_trans: "extends a b \<Longrightarrow> extends b c \<Longrightarrow> extends a c"
  by (auto simp: extends_def intro: same_wiring_trans)

lemma extends_setResult [simp]: "extends st (setResult p v st)"
  by (simp add: extends_def) (simp add: setResult_def)

lemma extends_emit [simp]: "extends st (emit l st)"
  by (simp add: extends_def)

lemma extends_operate: "operate ar this st = Inr st' \<Longrightarrow> extends st st'"
  by (auto simp: operate_def binop_def Let_def bindE_def
      split: if_splits sum.splits intro: extends_trans [OF extends_emit extends_setResult])

lemma same_wiring_fields:
  assumes "same_wiring st st'"
  shows "chipType (allChips st' ! i) = chipType (allChips st ! i)"
    and "chipId (allChips st' ! i) = chipId (allChips st ! i)"
    and "input1 (allChips st' ! i) = input1 (allChips st ! i)"
    and "input2 (allChips st' ! i) = input2 (allChips st ! i)"
    and "output_chip (allChips st' ! i) = output_chip (allChips st ! i)"
    and "inputValue (allChips st' ! i) = inputValue (allChips st ! i)"
    and "length (allChips st') = length (allChips st)"
proof -
  from assms have "wiring (allChips st' ! i) = wiring (allChips st ! i)"
    and l: "length (allChips st') = length (allChips st)"
    by (simp_all add: same_wiring_def)
  then show "chipType (allChips st' ! i) = chipType (allChips st ! i)"
    and "chipId (allChips st' ! i) = chipId (allChips st ! i)"
    and "input1 (allChips st' ! i) = input1 (allChips st ! i)"
    and "input2 (allChips st' ! i) = input2 (allChips st ! i)"
    and "output_chip (allChips st' ! i) = output_chip (allChips st ! i)"
    and "inputValue (allChips st' ! i) = inputValue (allChips st ! i)"
    by (simp_all add: wiring_def)
  show "length (allChips st') = length (allChips st)" by (rule l)
qed

lemma feeds_cong: "same_wiring st st' \<Longrightarrow> feeds st' = feeds st"
  by (intro ext) (simp add: feeds_def same_wiring_fields)

lemma extends_fields:
  assumes "extends st st'"
  shows "chipType (allChips st' ! i) = chipType (allChips st ! i)"
    and "chipId (allChips st' ! i) = chipId (allChips st ! i)"
    and "input1 (allChips st' ! i) = input1 (allChips st ! i)"
    and "input2 (allChips st' ! i) = input2 (allChips st ! i)"
    and "output_chip (allChips st' ! i) = output_chip (allChips st ! i)"
    and "inputValue (allChips st' ! i) = inputValue (allChips st ! i)"
    and "length (allChips st') = length (allChips st)"
  using assms by (simp_all add: extends_def same_wiring_fields)

lemma setResult_other: "x \<noteq> p \<Longrightarrow> allChips (setResult p v st) ! x = allChips st ! x"
  by (simp add: setResult_def)

lemma operate_other:
  "operate ar this st = Inr st' \<Longrightarrow> x \<noteq> this \<Longrightarrow> allChips st' ! x = allChips st ! x"
  by (auto simp: operate_def binop_def Let_def bindE_def setResult_other
      split: if_splits sum.splits)

lemma returned_compute_aux:
  "compute ar this st = Some r \<Longrightarrow> r = Inr st' \<Longrightarrow> returned st this st'"
proof (induction arbitrary: st' rule: compute.raw_induct [rotated 1, consumes 1])
  case (1 compute ar this st r)
  show ?case
  proof (cases "chipType (allChips st ! this) = CHR ''I''")
    case True
    with 1(2,3) have st': "st' = setResult this (inputValue (allChips st ! this)) st"
      by auto
    have "Wellfounded.accp (\<lambda>q p. feeds st p q) this"
      by (rule accp.accI) (simp add: feeds_def True)
    moreover have "(feeds st)\<^sup>*\<^sup>* this x"
      if "result (allChips st' ! x) \<noteq> result (allChips st ! x)" for x
      using that by (cases "x = this") (simp_all add: st' setResult_other)
    ultimately show ?thesis
      by (simp add: returned_def st')
  next
    case False
    with 1(2,3) obtain st1 st2 where
      a: "(case input1 (allChips st ! this) of None \<Rightarrow> Some (Inr st) | Some p \<Rightarrow> compute ar p st) = Some (Inr st1)"
      and b: "(case input2 (allChips st1 ! this) of None \<Rightarrow> Some (Inr st1) | Some p \<Rightarrow> compute ar p st1) = Some (Inr st2)"
      and c: "operate ar this st2 = Inr st'"
      by (auto split: bind_splits sum.splits)
    have e1: "extends st st1"
      using a 1(1) by (auto simp: returned_def split: option.splits)
    have e2: "extends st1 st2"
      using b 1(1) by (auto simp: returned_def split: option.splits)
    have e3: "extends st2 st'"
      using c by (rule extends_operate)
    have f1: "feeds st1 = feeds st"
      using e1 by (simp add: extends_def feeds_cong)
    have i2: "input2 (allChips st1 ! this) = input2 (allChips st ! this)"
      using e1 by (simp add: extends_fields)
    have r1: "returned st q st1" if "input1 (allChips st ! this) = Some q" for q
      using a 1(1) that by simp
    have r2: "returned st1 q st2" if "input2 (allChips st ! this) = Some q" for q
      using b 1(1) that i2 by simp
    have acc: "Wellfounded.accp (\<lambda>q p. feeds st p q) this"
    proof (rule accp.accI)
      fix q assume "feeds st this q"
      then consider "input1 (allChips st ! this) = Some q" | "input2 (allChips st ! this) = Some q"
        by (auto simp: feeds_def)
      then show "Wellfounded.accp (\<lambda>q p. feeds st p q) q"
      proof cases
        case 1
        then show ?thesis using r1 by (simp add: returned_def)
      next
        case 2
        then show ?thesis using r2 f1 by (simp add: returned_def)
      qed
    qed
    have ch: "(feeds st)\<^sup>*\<^sup>* this x"
      if neq: "result (allChips st' ! x) \<noteq> result (allChips st ! x)" for x
    proof (cases "x = this")
      case True
      then show ?thesis by simp
    next
      case False
      with c have "allChips st' ! x = allChips st2 ! x"
        by (rule operate_other)
      with neq have "result (allChips st2 ! x) \<noteq> result (allChips st ! x)"
        by simp
      then consider "result (allChips st1 ! x) \<noteq> result (allChips st ! x)"
        | "result (allChips st2 ! x) \<noteq> result (allChips st1 ! x)"
        by (cases "result (allChips st1 ! x) = result (allChips st ! x)") simp_all
      then show ?thesis
      proof cases
        case 1
        then obtain q where q: "input1 (allChips st ! this) = Some q"
          using a by (cases "input1 (allChips st ! this)") auto
        with r1 1 have "(feeds st)\<^sup>*\<^sup>* q x" by (simp add: returned_def)
        moreover have "feeds st this q"
          using q \<open>chipType (allChips st ! this) \<noteq> CHR ''I''\<close> by (simp add: feeds_def)
        ultimately show ?thesis by (rule converse_rtranclp_into_rtranclp [rotated])
      next
        case 2
        then obtain q where q: "input2 (allChips st ! this) = Some q"
          using b i2 by (cases "input2 (allChips st ! this)") auto
        with r2 2 f1 have "(feeds st)\<^sup>*\<^sup>* q x" by (simp add: returned_def)
        moreover have "feeds st this q"
          using q \<open>chipType (allChips st ! this) \<noteq> CHR ''I''\<close> by (simp add: feeds_def)
        ultimately show ?thesis by (rule converse_rtranclp_into_rtranclp [rotated])
      qed
    qed
    from e1 e2 e3 have "extends st st'" by (blast intro: extends_trans)
    with acc ch show ?thesis by (simp add: returned_def)
  qed
qed

lemma returned_compute: "compute ar this st = Some (Inr st') \<Longrightarrow> returned st this st'"
  by (rule returned_compute_aux) simp_all

lemma acc_no_cycle:
  assumes "Wellfounded.accp (\<lambda>q p. feeds st p q) p"
  shows "feeds st p q \<Longrightarrow> \<not> (feeds st)\<^sup>*\<^sup>* q p"
  using assms
proof (induction arbitrary: q rule: accp.induct)
  case (accI p)
  show ?case
  proof
    assume "(feeds st)\<^sup>*\<^sup>* q p"
    then show False
    proof (cases rule: converse_rtranclpE)
      case base
      with accI.prems accI.IH [of p p] show False by simp
    next
      case (step q')
      from step(2) accI.prems have "(feeds st)\<^sup>*\<^sup>* q' q"
        by (rule rtranclp.rtrancl_into_rtrancl)
      with accI.IH [of q q'] accI.prems step(1) show False by simp
    qed
  qed
qed

lemma findFirst_Some_iff:
  "findFirst cid st = Some j \<longleftrightarrow>
     j < length (allChips st) \<and> chipId (allChips st ! j) = cid
       \<and> (\<forall>i<j. chipId (allChips st ! i) \<noteq> cid)"
  unfolding findFirst_def find_Some_iff
  by (auto simp: nth_upt)

lemma findFirst_None_iff:
  "findFirst cid st = None \<longleftrightarrow> (\<forall>c \<in> set (allChips st). chipId c \<noteq> cid)"
  unfolding findFirst_def find_None_iff
  by (auto simp: all_set_conv_all_nth)

lemma findLast_SomeD:
  assumes "findLast cid st = Some j"
  shows "j < length (allChips st)" and "chipId (allChips st ! j) = cid"
proof -
  from assms have "j \<in> set (rev [0..<length (allChips st)]) \<and> chipId (allChips st ! j) = cid"
    unfolding findLast_def find_Some_iff by (metis nth_mem)
  then show "j < length (allChips st)" and "chipId (allChips st ! j) = cid"
    by simp_all
qed

lemma setResult_fields [simp]:
  "chipType (allChips (setResult p v st) ! i) = chipType (allChips st ! i)"
  "chipId (allChips (setResult p v st) ! i) = chipId (allChips st ! i)"
  "input1 (allChips (setResult p v st) ! i) = input1 (allChips st ! i)"
  "input2 (allChips (setResult p v st) ! i) = input2 (allChips st ! i)"
  "output_chip (allChips (setResult p v st) ! i) = output_chip (allChips st ! i)"
  "inputValue (allChips (setResult p v st) ! i) = inputValue (allChips st ! i)"
  "length (allChips (setResult p v st)) = length (allChips st)"
  "cout (setResult p v st) = cout st"
  by (simp_all add: same_wiring_fields [OF same_wiring_setResult]) (simp add: setResult_def)

lemma result_setResult:
  "result (allChips (setResult p v st) ! i) =
     (if i = p \<and> p < length (allChips st) then v else result (allChips st ! i))"
  by (cases "p < length (allChips st)")
     (simp_all add: setResult_def nth_list_update list_update_beyond)

lemma setInputValue_nth:
  "allChips (setInputValue p v st) ! i =
     (if i = p \<and> p < length (allChips st) then (allChips st ! p)\<lparr>inputValue := v\<rparr>
      else allChips st ! i)"
  by (cases "p < length (allChips st)")
     (simp_all add: setInputValue_def nth_list_update list_update_beyond)

lemma setInputValue_fields [simp]:
  "chipType (allChips (setInputValue p v st) ! i) = chipType (allChips st ! i)"
  "chipId (allChips (setInputValue p v st) ! i) = chipId (allChips st ! i)"
  "input1 (allChips (setInputValue p v st) ! i) = input1 (allChips st ! i)"
  "input2 (allChips (setInputValue p v st) ! i) = input2 (allChips st ! i)"
  "output_chip (allChips (setInputValue p v st) ! i) = output_chip (allChips st ! i)"
  "result (allChips (setInputValue p v st) ! i) = result (allChips st ! i)"
  "length (allChips (setInputValue p v st)) = length (allChips st)"
  "cout (setInputValue p v st) = cout st"
  by (simp_all add: setInputValue_nth) (simp_all add: setInputValue_def)

lemma inputValue_setInputValue:
  "inputValue (allChips (setInputValue p v st) ! i) =
     (if i = p \<and> p < length (allChips st) then v else inputValue (allChips st ! i))"
  by (simp add: setInputValue_nth)

lemma findFirst_updates [simp]:
  "findFirst cid (setResult p v st) = findFirst cid st"
  "findFirst cid (setInputValue p v st) = findFirst cid st"
  "findFirst cid (emit l st) = findFirst cid st"
  by (simp_all add: findFirst_def)

lemma compute_input_chip:
  "chipType (allChips st ! q) = CHR ''I'' \<Longrightarrow>
     compute ar q st = Some (Inr (setResult q (inputValue (allChips st ! q)) st))"
  by (subst compute.simps) simp

text \<open>The state after the inputs of a chip fed by two input chips have been computed.\<close>

lemma computeInputs_two_input_chips:
  assumes "input1 (allChips st ! this) = Some q1" and "input2 (allChips st ! this) = Some q2"
    and "chipType (allChips st ! q1) = CHR ''I''" and "chipType (allChips st ! q2) = CHR ''I''"
  shows "computeInputs ar this st =
           Some (Inr (setResult q2 (inputValue (allChips st ! q2))
                       (setResult q1 (inputValue (allChips st ! q1)) st)))"
  using assms by (simp add: computeInputs_def compute_input_chip)

lemma binop_two_inputs:
  assumes "input1 (allChips st ! this) = Some q1" and "input2 (allChips st ! this) = Some q2"
  shows "binop f this st =
           Inr (setResult this (f (result (allChips st ! q1)) (result (allChips st ! q2))) st)"
  using assms by (simp add: binop_def getResult_def)

lemma compute_arith_chip:
  assumes lt: "this < length (allChips st)"
    and f: "(chipType (allChips st ! this), f) \<in>
              {(CHR ''A'', dadd ar), (CHR ''S'', dsub ar), (CHR ''M'', dmul ar)}"
    and i1: "input1 (allChips st ! this) = Some q1" and i2: "input2 (allChips st ! this) = Some q2"
    and q1: "q1 < length (allChips st)" and q2: "q2 < length (allChips st)"
    and t1: "chipType (allChips st ! q1) = CHR ''I''" and t2: "chipType (allChips st ! q2) = CHR ''I''"
  shows "compute ar this st =
           Some (Inr (setResult this
                        (f (inputValue (allChips st ! q1)) (inputValue (allChips st ! q2)))
                        (setResult q2 (inputValue (allChips st ! q2))
                          (setResult q1 (inputValue (allChips st ! q1)) st))))"
proof -
  let ?st2 = "setResult q2 (inputValue (allChips st ! q2))
                (setResult q1 (inputValue (allChips st ! q1)) st)"
  from f have nI: "chipType (allChips st ! this) \<noteq> CHR ''I''" by auto
  have ci: "computeInputs ar this st = Some (Inr ?st2)"
    using i1 i2 t1 t2 by (rule computeInputs_two_input_chips)
  have r1: "result (allChips ?st2 ! q1) = inputValue (allChips st ! q1)"
    using q1 q2 by (simp add: result_setResult)
  have r2: "result (allChips ?st2 ! q2) = inputValue (allChips st ! q2)"
    using q1 q2 by (simp add: result_setResult)
  have "binop f this ?st2 =
      Inr (setResult this (f (result (allChips ?st2 ! q1)) (result (allChips ?st2 ! q2))) ?st2)"
    by (rule binop_two_inputs) (simp_all add: i1 i2)
  then have "operate ar this ?st2 =
      Inr (setResult this (f (inputValue (allChips st ! q1)) (inputValue (allChips st ! q2))) ?st2)"
    using f unfolding r1 r2 by (auto simp: operate_def)
  with ci nI show ?thesis
    by (simp add: compute_unfold)
qed

lemma computeInputs_returned:
  assumes ci: "computeInputs ar this st = Some (Inr st2)"
    and nI: "chipType (allChips st ! this) \<noteq> CHR ''I''"
  shows "extends st st2"
    and "result (allChips st2 ! this) = result (allChips st ! this)"
    and "input1 (allChips st ! this) \<noteq> Some this"
proof -
  from ci obtain st1 where
    a: "(case input1 (allChips st ! this) of None \<Rightarrow> Some (Inr st) | Some p \<Rightarrow> compute ar p st) = Some (Inr st1)"
    and b: "(case input2 (allChips st1 ! this) of None \<Rightarrow> Some (Inr st1) | Some p \<Rightarrow> compute ar p st1) = Some (Inr st2)"
    by (auto simp: computeInputs_def split: bind_splits sum.splits)
  have r1: "returned st q st1" if "input1 (allChips st ! this) = Some q" for q
    using a that by (simp add: returned_compute)
  have e1: "extends st st1"
    using a r1 by (cases "input1 (allChips st ! this)") (auto simp: returned_def)
  then have f1: "feeds st1 = feeds st" and i2: "input2 (allChips st1 ! this) = input2 (allChips st ! this)"
    by (simp_all add: extends_def feeds_cong extends_fields)
  have r2: "returned st1 q st2" if "input2 (allChips st ! this) = Some q" for q
    using b that i2 by (simp add: returned_compute)
  have e2: "extends st1 st2"
    using b r2 i2 by (cases "input2 (allChips st ! this)") (auto simp: returned_def)
  from e1 e2 show "extends st st2" by (rule extends_trans)
  have acc: "Wellfounded.accp (\<lambda>q p. feeds st p q) this"
  proof (rule accp.accI)
    fix q assume "feeds st this q"
    then consider "input1 (allChips st ! this) = Some q" | "input2 (allChips st ! this) = Some q"
      by (auto simp: feeds_def)
    then show "Wellfounded.accp (\<lambda>q p. feeds st p q) q"
    proof cases
      case 1
      then show ?thesis using r1 by (simp add: returned_def)
  next
      case 2
      then show ?thesis using r2 f1 by (simp add: returned_def)
    qed
  qed
  have k1: "result (allChips st1 ! this) = result (allChips st ! this)"
  proof (cases "input1 (allChips st ! this)")
    case None
    with a show ?thesis by simp
next
    case (Some q)
    with nI have "feeds st this q" by (simp add: feeds_def)
    with acc have "\<not> (feeds st)\<^sup>*\<^sup>* q this" by (rule acc_no_cycle)
    with r1 [OF Some] show ?thesis by (auto simp: returned_def)
  qed
  have k2: "result (allChips st2 ! this) = result (allChips st1 ! this)"
  proof (cases "input2 (allChips st ! this)")
    case None
    with b i2 show ?thesis by simp
next
    case (Some q)
    with nI have "feeds st this q" by (simp add: feeds_def)
    with acc have "\<not> (feeds st)\<^sup>*\<^sup>* q this" by (rule acc_no_cycle)
    with r2 [OF Some] f1 show ?thesis by (auto simp: returned_def)
  qed
  from k1 k2 show "result (allChips st2 ! this) = result (allChips st ! this)" by simp
  show "input1 (allChips st ! this) \<noteq> Some this"
  proof
    assume "input1 (allChips st ! this) = Some this"
    with nI have "feeds st this this" by (simp add: feeds_def)
    with acc have "\<not> (feeds st)\<^sup>*\<^sup>* this this" by (rule acc_no_cycle)
    then show False by simp
  qed
qed

lemma query_arith_chip:
  assumes lt: "this < length (allChips st)"
    and f: "(chipType (allChips st ! this), f) \<in>
              {(CHR ''A'', dadd ar), (CHR ''S'', dsub ar), (CHR ''M'', dmul ar)}"
    and i1: "input1 (allChips st ! this) = Some q1" and i2: "input2 (allChips st ! this) = Some q2"
    and q1: "q1 < length (allChips st)" and q2: "q2 < length (allChips st)"
    and t1: "chipType (allChips st ! q1) = CHR ''I''" and t2: "chipType (allChips st ! q2) = CHR ''I''"
    and c: "findFirst cid st = Some this"
  shows "exec ar (QueryOutput cid) st =
           Some (Inr (emit (TextNum ''The output value from this circuit is ''
                              (f (inputValue (allChips st ! q1)) (inputValue (allChips st ! q2))))
                       (setResult this
                          (f (inputValue (allChips st ! q1)) (inputValue (allChips st ! q2)))
                          (setResult q2 (inputValue (allChips st ! q2))
                            (setResult q1 (inputValue (allChips st ! q1))
                              (emit (Text ''Computation Starts '') st))))))"
proof -
  let ?st0 = "emit (Text ''Computation Starts '') st"
  have "compute ar this ?st0 =
      Some (Inr (setResult this
                   (f (inputValue (allChips ?st0 ! q1)) (inputValue (allChips ?st0 ! q2)))
                   (setResult q2 (inputValue (allChips ?st0 ! q2))
                     (setResult q1 (inputValue (allChips ?st0 ! q1)) ?st0))))"
    by (rule compute_arith_chip) (insert assms, simp_all)
  moreover from f have "chipType (allChips st ! this) \<noteq> CHR ''O''"
    by auto
  ultimately show ?thesis
    using c lt by (simp add: exec_def queryOutput_def Let_def result_setResult)
qed

lemma upd_output_fields [simp]:
  "chipId (xs[p := (xs ! p)\<lparr>output_chip := v\<rparr>] ! i) = chipId (xs ! i)"
  "chipType (xs[p := (xs ! p)\<lparr>output_chip := v\<rparr>] ! i) = chipType (xs ! i)"
  "input1 (xs[p := (xs ! p)\<lparr>output_chip := v\<rparr>] ! i) = input1 (xs ! i)"
  "input2 (xs[p := (xs ! p)\<lparr>output_chip := v\<rparr>] ! i) = input2 (xs ! i)"
  by (cases "p < length xs"; cases "i = p"; simp add: list_update_beyond)+

lemma upd_input1_fields [simp]:
  "chipId (xs[p := (xs ! p)\<lparr>input1 := v\<rparr>] ! i) = chipId (xs ! i)"
  "chipType (xs[p := (xs ! p)\<lparr>input1 := v\<rparr>] ! i) = chipType (xs ! i)"
  "input2 (xs[p := (xs ! p)\<lparr>input1 := v\<rparr>] ! i) = input2 (xs ! i)"
  "i \<noteq> p \<Longrightarrow> input1 (xs[p := (xs ! p)\<lparr>input1 := v\<rparr>] ! i) = input1 (xs ! i)"
  by (cases "p < length xs"; cases "i = p"; simp add: list_update_beyond)+

lemma upd_input2_fields [simp]:
  "chipId (xs[p := (xs ! p)\<lparr>input2 := v\<rparr>] ! i) = chipId (xs ! i)"
  "chipType (xs[p := (xs ! p)\<lparr>input2 := v\<rparr>] ! i) = chipType (xs ! i)"
  "input1 (xs[p := (xs ! p)\<lparr>input2 := v\<rparr>] ! i) = input1 (xs ! i)"
  by (cases "p < length xs"; cases "i = p"; simp add: list_update_beyond)+

lemma setInput1_frame:
  assumes "setInput1 a ic st = Inr st'"
  shows "chipId (allChips st' ! i) = chipId (allChips st ! i)"
    and "length (allChips st') = length (allChips st)"
    and "i \<noteq> a \<Longrightarrow> input1 (allChips st' ! i) = input1 (allChips st ! i)"
  using assms by (auto simp: setInput1_def setOutput_def split: option.splits)

lemma setInput2_frame:
  assumes "setInput2 a ic st = Inr st'"
  shows "chipId (allChips st' ! i) = chipId (allChips st ! i)"
    and "length (allChips st') = length (allChips st)"
    and "input1 (allChips st' ! i) = input1 (allChips st ! i)"
  using assms by (auto simp: setInput2_def setOutput_def split: option.splits)

lemma connect_frame:
  assumes "connect inputId outputId st = Inr st'"
  shows "chipId (allChips st' ! i) = chipId (allChips st ! i)"
    and "length (allChips st') = length (allChips st)"
    and "chipId (allChips st ! i) \<noteq> outputId \<Longrightarrow> input1 (allChips st' ! i) = input1 (allChips st ! i)"
proof -
  from assms obtain oc where oc: "findLast outputId st = Some oc"
    by (cases "findLast outputId st") (simp_all add: connect_def)
  then have n: "chipId (allChips st ! oc) = outputId"
    by (rule findLast_SomeD)
  let ?t = "chipType (allChips st ! oc)"
  from assms oc have "(if ?t = CHR ''N'' \<or> ?t = CHR ''O'' then setInput1 oc (findLast inputId st) st
       else if ?t = CHR ''A'' \<or> ?t = CHR ''S'' \<or> ?t = CHR ''M'' \<or> ?t = CHR ''D'' then
         (if input1 (allChips st ! oc) = None then setInput1 oc (findLast inputId st) st
          else setInput2 oc (findLast inputId st) st)
       else Inr st) = Inr st'"
    by (simp add: connect_def Let_def)
  then have "st = st' \<or> setInput1 oc (findLast inputId st) st = Inr st'
      \<or> setInput2 oc (findLast inputId st) st = Inr st'"
    by (simp split: if_splits)
  then consider "st = st'" | "setInput1 oc (findLast inputId st) st = Inr st'"
    | "setInput2 oc (findLast inputId st) st = Inr st'"
    by blast
  note cs = this
  from cs show "chipId (allChips st' ! i) = chipId (allChips st ! i)"
    by cases (simp_all add: setInput1_frame setInput2_frame)
  from cs show "length (allChips st') = length (allChips st)"
    by cases (simp_all add: setInput1_frame setInput2_frame)
  assume "chipId (allChips st ! i) \<noteq> outputId"
  with n have "i \<noteq> oc" by auto
  with cs show "input1 (allChips st' ! i) = input1 (allChips st ! i)"
    by cases (simp_all add: setInput1_frame setInput2_frame)
qed

lemma queryOutput_extends:
  assumes "queryOutput ar cid st = Some (Inr st')"
  shows "extends st st'"
proof (cases "findFirst cid st")
  case None
  with assms show ?thesis by (auto simp: queryOutput_def Let_def)
next
  case (Some j)
  with assms obtain st1 l where c: "compute ar j (emit (Text ''Computation Starts '') st) = Some (Inr st1)"
    and "st' = emit l st1"
    by (auto simp: queryOutput_def Let_def getResult_def bindE_def
        split: bind_splits sum.splits if_splits option.splits)
  moreover from c have "extends (emit (Text ''Computation Starts '') st) st1"
    using returned_compute by (auto simp: returned_def)
  ultimately show ?thesis
    by (blast intro: extends_trans extends_emit)
qed

lemma exec_frame:
  assumes "exec ar cmd st = Some (Inr st')"
  shows "chipId (allChips st' ! i) = chipId (allChips st ! i)
      \<and> length (allChips st') = length (allChips st)
      \<and> ((\<forall>a. cmd \<noteq> Connect a (chipId (allChips st ! i))) \<longrightarrow>
           input1 (allChips st' ! i) = input1 (allChips st ! i))"
proof (cases cmd)
  case (Connect a b)
  with assms have "connect a b st = Inr st'" by (simp add: exec_def)
  then show ?thesis using Connect by (auto simp: connect_frame)
next
  case (SetInput cid v)
  with assms show ?thesis
    by (auto simp: exec_def setInput_def split: option.splits)
next
  case (QueryOutput cid)
  with assms have "extends st st'" by (simp add: exec_def queryOutput_extends)
  then show ?thesis by (simp add: extends_fields)
next
  case (Unrecognised x)
  with assms show ?thesis by (simp add: exec_def)
qed

lemma run_frame:
  "run ar cmds st = Some (Inr st') \<Longrightarrow>
     chipId (allChips st' ! i) = chipId (allChips st ! i)
     \<and> length (allChips st') = length (allChips st)
     \<and> ((\<forall>a. Connect a (chipId (allChips st ! i)) \<notin> set cmds) \<longrightarrow>
          input1 (allChips st' ! i) = input1 (allChips st ! i))"
proof (induction cmds arbitrary: st)
  case Nil
  then show ?case by simp
next
  case (Cons cmd cmds)
  from Cons.prems obtain st1 where e: "exec ar cmd st = Some (Inr st1)"
    and r: "run ar cmds st1 = Some (Inr st')"
    by (auto split: bind_splits sum.splits)
  note f = exec_frame [OF e, of i]
  from Cons.IH [OF r] f show ?case
    by auto
qed

lemma init_fields:
  "i < length ids \<Longrightarrow> input1 (allChips (init junk ids) ! i) = None"
  "length (allChips (init junk ids)) = length ids"
  by (simp_all add: init_def new_Chip_def)

lemma adder_reached:
  "run real_arith [Connect ''I1'' ''A1'', Connect ''I2'' ''A1'', SetInput ''I1'' 3, SetInput ''I2'' 4]
     (init 0 [''I1'', ''I2'', ''A1'']) = Some (Inr adder)"
  by (simp add: adder_def init_def new_Chip_def typeOf_def exec_def connect_def findLast_def
      findFirst_def setInput_def setInputValue_def setInput1_def setInput2_def setOutput_def Let_def)

lemma divider_reached:
  "run real_arith [Connect ''I1'' ''D1'', Connect ''I2'' ''D1'', SetInput ''I1'' 6, SetInput ''I2'' 0]
     (init 9 [''I1'', ''I2'', ''D1'']) = Some (Inr divider)"
  by (simp add: divider_def init_def new_Chip_def typeOf_def exec_def connect_def findLast_def
      findFirst_def setInput_def setInputValue_def setInput1_def setInput2_def setOutput_def Let_def)

lemma negator_reached:
  "run real_arith [Connect ''I1'' ''N1'', SetInput ''I1'' 0] (init 9 [''I1'', ''N1'']) = Some (Inr negator)"
  by (simp add: negator_def init_def new_Chip_def typeOf_def exec_def connect_def findLast_def
      findFirst_def setInput_def setInputValue_def setInput1_def setInput2_def setOutput_def Let_def)

lemma probe_reached:
  "run real_arith [Connect ''I1'' ''O1'', SetInput ''I1'' 5] (init 9 [''I1'', ''O1'']) = Some (Inr probe)"
  by (simp add: probe_def init_def new_Chip_def typeOf_def exec_def connect_def findLast_def
      findFirst_def setInput_def setInputValue_def setInput1_def setInput2_def setOutput_def Let_def)

subsection \<open>The two scenarios of the specification\<close>

text \<open>Everything the program prints for the two example runs. The line of the output
  chip \<open>O1\<close> is printed by both passes of the listing.\<close>

lemma scenario_adder:
  "main real_arith 0 [''I1'', ''I2'', ''A1'', ''O1'']
     [Connect ''I1'' ''A1'', Connect ''I2'' ''A1'', Connect ''A1'' ''O1'',
      SetInput ''I1'' 3, SetInput ''I2'' 4, QueryOutput ''O1''] =
   Some (Inr [Text ''Computation Starts '',
        TextNum ''The output value from this circuit is '' 7,
        Text ''***** Showing the connections that were established'',
        Text ''I1, Output = A1'', Text ''I2, Output = A1'',
        Text ''A1, Input 1 = I1, Input 2 = I2, Output = O1'',
        Text ''O1, Input 1 = A1'', Text ''O1, Input 1 = A1''])"
  by (simp add: main_def init_def new_Chip_def typeOf_def exec_def connect_def findLast_def
      findFirst_def setInput_def setInputValue_def setInput1_def setInput2_def setOutput_def
      queryOutput_def compute_unfold computeInputs_def operate_def binop_def getResult_def
      setResult_def real_arith_def
      showConnections_def display_def idOrNone_def getId_def emit_def Let_def)

lemma scenario_divider:
  "main real_arith 0 [''I1'', ''I2'', ''D1'', ''O1'']
     [Connect ''I1'' ''D1'', Connect ''I2'' ''D1'', Connect ''D1'' ''O1'',
      SetInput ''I1'' 3, SetInput ''I2'' 0, QueryOutput ''O1''] =
   Some (Inr [Text ''Computation Starts '',
        Text ''Error: Division by zero in chip D1'',
        TextNum ''The output value from this circuit is '' 0,
        Text ''***** Showing the connections that were established'',
        Text ''I1, Output = D1'', Text ''I2, Output = D1'',
        Text ''D1, Input 1 = I1, Input 2 = I2, Output = O1'',
        Text ''O1, Input 1 = D1'', Text ''O1, Input 1 = D1''])"
  by (simp add: main_def init_def new_Chip_def typeOf_def exec_def connect_def findLast_def
      findFirst_def setInput_def setInputValue_def setInput1_def setInput2_def setOutput_def
      queryOutput_def compute_unfold computeInputs_def operate_def binop_def getResult_def
      setResult_def real_arith_def
      showConnections_def display_def idOrNone_def getId_def emit_def Let_def)

section \<open>The claims\<close>

text \<open>
  Claim C1. An addition, subtraction or multiplication chip whose two inputs are
  wired to input chips: a call of \<open>compute\<close> returns, and the result of the chip is then
  the sum, difference or product of the \<open>inputValue\<close>s the two input chips have at the
  call. Nothing is kept from earlier calls: for a query of the chip, a command \<open>I\<close> that
  sets the value of any chip \<open>q\<close>, and a second query, the second query prints the value
  computed from the values as they are after the command \<open>I\<close>.
\<close>

theorem arithmetic_chip_recomputed:
  assumes "this < length (allChips st)"
    and "(chipType (allChips st ! this), f) \<in>
           {(CHR ''A'', dadd ar), (CHR ''S'', dsub ar), (CHR ''M'', dmul ar)}"
    and "input1 (allChips st ! this) = Some q1" and "input2 (allChips st ! this) = Some q2"
    and "q1 < length (allChips st)" and "q2 < length (allChips st)"
    and "chipType (allChips st ! q1) = CHR ''I''" and "chipType (allChips st ! q2) = CHR ''I''"
  shows "(\<exists>st'. compute ar this st = Some (Inr st')
            \<and> result (allChips st' ! this) =
                f (inputValue (allChips st ! q1)) (inputValue (allChips st ! q2)))
       \<and> (\<forall>cid iid q v. findFirst cid st = Some this \<longrightarrow> findFirst iid st = Some q \<longrightarrow>
            (\<exists>st3. run ar [QueryOutput cid, SetInput iid v, QueryOutput cid] st = Some (Inr st3)
               \<and> cout st3 = cout st @
                   [Text ''Computation Starts '',
                    TextNum ''The output value from this circuit is ''
                      (f (inputValue (allChips st ! q1)) (inputValue (allChips st ! q2))),
                    Text ''Computation Starts '',
                    TextNum ''The output value from this circuit is ''
                      (f (if q1 = q then v else inputValue (allChips st ! q1))
                         (if q2 = q then v else inputValue (allChips st ! q2)))]))"
proof (intro conjI allI impI)
  show "\<exists>st'. compute ar this st = Some (Inr st')
            \<and> result (allChips st' ! this) =
                f (inputValue (allChips st ! q1)) (inputValue (allChips st ! q2))"
    using compute_arith_chip [OF assms] assms(1) by (simp add: result_setResult)
next
  fix cid iid q v
  assume c: "findFirst cid st = Some this" and i: "findFirst iid st = Some q"
  let ?a = "inputValue (allChips st ! q1)" and ?b = "inputValue (allChips st ! q2)"
  let ?msg = "''The output value from this circuit is ''"
  let ?st1 = "emit (TextNum ?msg (f ?a ?b))
                (setResult this (f ?a ?b) (setResult q2 ?b (setResult q1 ?a
                   (emit (Text ''Computation Starts '') st))))"
  let ?st2 = "setInputValue q v ?st1"
  let ?a' = "inputValue (allChips ?st2 ! q1)" and ?b' = "inputValue (allChips ?st2 ! q2)"
  let ?st3 = "emit (TextNum ?msg (f ?a' ?b'))
                (setResult this (f ?a' ?b') (setResult q2 ?b' (setResult q1 ?a'
                   (emit (Text ''Computation Starts '') ?st2))))"
  from i have q: "q < length (allChips st)"
    by (simp add: findFirst_Some_iff)
  have e1: "exec ar (QueryOutput cid) st = Some (Inr ?st1)"
    using assms c by (rule query_arith_chip)
  have e2: "exec ar (SetInput iid v) ?st1 = Some (Inr ?st2)"
    using i by (simp add: exec_def setInput_def)
  have e3: "exec ar (QueryOutput cid) ?st2 = Some (Inr ?st3)"
    by (rule query_arith_chip) (insert assms c, simp_all)
  have a': "?a' = (if q1 = q then v else ?a)" and b': "?b' = (if q2 = q then v else ?b)"
    using q by (simp_all add: inputValue_setInputValue)
  have "run ar [QueryOutput cid, SetInput iid v, QueryOutput cid] st = Some (Inr ?st3)"
    by (simp add: e1 e2 e3)
  moreover have "cout ?st3 = cout st @
      [Text ''Computation Starts '', TextNum ?msg (f ?a ?b),
       Text ''Computation Starts '',
       TextNum ?msg (f (if q1 = q then v else ?a) (if q2 = q then v else ?b))]"
    unfolding a' b' by simp
  ultimately show "\<exists>st3. run ar [QueryOutput cid, SetInput iid v, QueryOutput cid] st = Some (Inr st3)
               \<and> cout st3 = cout st @
                   [Text ''Computation Starts '', TextNum ?msg (f ?a ?b),
                    Text ''Computation Starts '',
                    TextNum ?msg (f (if q1 = q then v else ?a) (if q2 = q then v else ?b))]"
    by blast
qed

theorem arithmetic_chip_recomputed_witness:
  "(\<exists>st'. compute real_arith 2 adder = Some (Inr st') \<and> result (allChips st' ! 2) = 7)
   \<and> (\<exists>st3. run real_arith [QueryOutput ''A1'', SetInput ''I1'' 10, QueryOutput ''A1''] adder
                = Some (Inr st3)
          \<and> cout st3 = [Text ''Computation Starts '',
                         TextNum ''The output value from this circuit is '' 7,
                         Text ''Computation Starts '',
                         TextNum ''The output value from this circuit is '' 14])"
proof -
  have a: "findFirst ''A1'' adder = Some 2" and i: "findFirst ''I1'' adder = Some 0"
    by (simp_all add: findFirst_def adder_def new_Chip_def)
  have v: "inputValue (allChips adder ! 0) = 3" "inputValue (allChips adder ! 1) = 4"
    "cout adder = []"
    by (simp_all add: adder_def new_Chip_def)
  have "2 < length (allChips adder)"
    and "(chipType (allChips adder ! 2), (+)) \<in>
           {(CHR ''A'', dadd real_arith), (CHR ''S'', dsub real_arith), (CHR ''M'', dmul real_arith)}"
    and "input1 (allChips adder ! 2) = Some 0" and "input2 (allChips adder ! 2) = Some 1"
    and "0 < length (allChips adder)" and "1 < length (allChips adder)"
    and "chipType (allChips adder ! 0) = CHR ''I''" and "chipType (allChips adder ! 1) = CHR ''I''"
    by (simp_all add: adder_def new_Chip_def real_arith_def)
  note t = arithmetic_chip_recomputed [OF this, unfolded v]
  from t have "\<exists>st'. compute real_arith 2 adder = Some (Inr st') \<and> result (allChips st' ! 2) = 7"
    by simp
  moreover from t [THEN conjunct2, rule_format, OF a i, of 10]
  have "\<exists>st3. run real_arith [QueryOutput ''A1'', SetInput ''I1'' 10, QueryOutput ''A1''] adder
                = Some (Inr st3)
          \<and> cout st3 = [Text ''Computation Starts '',
                         TextNum ''The output value from this circuit is '' 7,
                         Text ''Computation Starts '',
                         TextNum ''The output value from this circuit is '' 14]"
    by simp
  ultimately show ?thesis
    by simp
qed

text \<open>
  Claim C2. A division chip, once its inputs have been computed (state \<open>st2\<close>): when
  the result of \<open>input2\<close> is zero, \<open>compute\<close> returns without error, the result of the
  chip is 0 and exactly one line, the division-by-zero message with the id of the chip, has
  been added to the output; when it is not zero, the result is the quotient of the results
  of \<open>input1\<close> and \<open>input2\<close> and no line has been added.
\<close>

theorem divide_by_zero_recovered:
  assumes "this < length (allChips st)"
    and "chipType (allChips st ! this) = CHR ''D''"
    and "input2 (allChips st ! this) = Some q2"
    and "computeInputs ar this st = Some (Inr st2)"
  shows "(\<not> dnonzero ar (result (allChips st2 ! q2)) \<longrightarrow>
           (\<exists>st'. compute ar this st = Some (Inr st')
              \<and> result (allChips st' ! this) = dzero ar
              \<and> cout st' = cout st2 @
                   [Text (''Error: Division by zero in chip '' @ chipId (allChips st ! this))]))
       \<and> (dnonzero ar (result (allChips st2 ! q2)) \<longrightarrow>
           (\<forall>q1. input1 (allChips st ! this) = Some q1 \<longrightarrow>
              (\<exists>st'. compute ar this st = Some (Inr st')
                 \<and> result (allChips st' ! this) =
                     ddiv ar (result (allChips st2 ! q1)) (result (allChips st2 ! q2))
                 \<and> cout st' = cout st2)))"
proof -
  have nI: "chipType (allChips st ! this) \<noteq> CHR ''I''"
    using assms(2) by simp
  have e: "extends st st2"
    using assms(4) nI by (rule computeInputs_returned)
  have c: "compute ar this st = Some (operate ar this st2)"
    using assms(4) nI by (simp add: compute_unfold)
  have l: "this < length (allChips st2)"
    using assms(1) e by (simp add: extends_fields)
  have t: "chipType (allChips st2 ! this) = CHR ''D''"
    and i2: "input2 (allChips st2 ! this) = Some q2"
    and i1: "input1 (allChips st2 ! this) = input1 (allChips st ! this)"
    and n: "chipId (allChips st2 ! this) = chipId (allChips st ! this)"
    using assms(2,3) e by (simp_all add: extends_fields)
  show ?thesis
    using l by (auto simp: c operate_def t i1 i2 n getResult_def result_setResult)
qed

theorem divide_by_zero_recovered_witness:
  "computeInputs real_arith 2 divider = Some (Inr (setResult 1 0 (setResult 0 6 divider)))
   \<and> (\<exists>st'. compute real_arith 2 divider = Some (Inr st')
         \<and> result (allChips st' ! 2) = 0
         \<and> cout st' = [Text ''Error: Division by zero in chip D1''])"
proof -
  have c: "computeInputs real_arith 2 divider = Some (Inr (setResult 1 0 (setResult 0 6 divider)))"
    by (simp add: computeInputs_def compute_input_chip divider_def new_Chip_def)
  from divide_by_zero_recovered [of 2 divider 1 real_arith, OF _ _ _ c] c
  show ?thesis
    by (simp add: divider_def new_Chip_def real_arith_def setResult_def)
qed

text \<open>
  Claim C4. A negation chip, once its inputs have been computed (state \<open>st2\<close>): when
  the result of \<open>input1\<close> is zero, \<open>compute\<close> returns \<open>st2\<close> as it is, and the result
  of the chip is still the one it had before the call of \<open>compute\<close>; when it is not zero,
  the result of the chip is the negated result of \<open>input1\<close>.
\<close>

theorem negate_zero_keeps_stale_result:
  assumes "this < length (allChips st)"
    and "chipType (allChips st ! this) = CHR ''N''"
    and "input1 (allChips st ! this) = Some q"
    and "computeInputs ar this st = Some (Inr st2)"
  shows "(\<not> dnonzero ar (result (allChips st2 ! q)) \<longrightarrow>
           compute ar this st = Some (Inr st2)
           \<and> result (allChips st2 ! this) = result (allChips st ! this))
       \<and> (dnonzero ar (result (allChips st2 ! q)) \<longrightarrow>
           (\<exists>st'. compute ar this st = Some (Inr st')
              \<and> result (allChips st' ! q) = result (allChips st2 ! q)
              \<and> result (allChips st' ! this) = dneg ar (result (allChips st2 ! q))))"
proof -
  have nI: "chipType (allChips st ! this) \<noteq> CHR ''I''"
    using assms(2) by simp
  note r = computeInputs_returned [OF assms(4) nI]
  have c: "compute ar this st = Some (operate ar this st2)"
    using assms(4) nI by (simp add: compute_unfold)
  have l: "this < length (allChips st2)"
    using assms(1) r(1) by (simp add: extends_fields)
  have t: "chipType (allChips st2 ! this) = CHR ''N''"
    and i1: "input1 (allChips st2 ! this) = Some q"
    using assms(2,3) r(1) by (simp_all add: extends_fields)
  have q: "q \<noteq> this"
    using r(3) assms(3) by auto
  show ?thesis
    using l q r(2) by (auto simp: c operate_def t i1 getResult_def result_setResult)
qed

theorem negate_zero_keeps_stale_result_witness:
  "computeInputs real_arith 1 negator = Some (Inr (setResult 0 0 negator))
   \<and> compute real_arith 1 negator = Some (Inr (setResult 0 0 negator))
   \<and> result (allChips (setResult 0 0 negator) ! 1) = 9"
proof -
  have c: "computeInputs real_arith 1 negator = Some (Inr (setResult 0 0 negator))"
    by (simp add: computeInputs_def compute_input_chip negator_def new_Chip_def)
  from negate_zero_keeps_stale_result [of 1 negator 0 real_arith, OF _ _ _ c] c
  show ?thesis
    by (simp add: negator_def new_Chip_def real_arith_def setResult_def)
qed

text \<open>
  Claim C5. A command \<open>A\<close> whose two ids are found. When the target is an addition,
  subtraction, multiplication or division chip, the command is \<open>setInput1\<close> if the slot
  \<open>input1\<close> of the target is empty and \<open>setInput2\<close> otherwise, and it binds the
  upstream chip to that slot; the slot \<open>input1\<close> is empty at the first such command, that
  is in every state reached from the initial one by commands none of which is a command
  \<open>A\<close> with this target id. When the target is a negation or an output chip, the command is
  \<open>setInput1\<close>, whatever the slot holds.
\<close>

theorem connect_fills_first_free_slot:
  assumes "findLast outputId st = Some oc" and "findLast inputId st = Some ic"
  shows "(chipType (allChips st ! oc) \<in> {CHR ''A'', CHR ''S'', CHR ''M'', CHR ''D''} \<longrightarrow>
            (input1 (allChips st ! oc) = None \<longrightarrow>
               exec ar (Connect inputId outputId) st = Some (setInput1 oc (Some ic) st)
               \<and> (\<exists>st'. setInput1 oc (Some ic) st = Inr st' \<and> input1 (allChips st' ! oc) = Some ic))
          \<and> (input1 (allChips st ! oc) \<noteq> None \<longrightarrow>
               exec ar (Connect inputId outputId) st = Some (setInput2 oc (Some ic) st)
               \<and> (\<exists>st'. setInput2 oc (Some ic) st = Inr st' \<and> input2 (allChips st' ! oc) = Some ic
                     \<and> input1 (allChips st' ! oc) = input1 (allChips st ! oc)))
          \<and> (\<forall>junk ids cmds. run ar cmds (init junk ids) = Some (Inr st) \<longrightarrow>
                (\<forall>a. Connect a outputId \<notin> set cmds) \<longrightarrow> input1 (allChips st ! oc) = None))
       \<and> (chipType (allChips st ! oc) \<in> {CHR ''N'', CHR ''O''} \<longrightarrow>
            exec ar (Connect inputId outputId) st = Some (setInput1 oc (Some ic) st)
            \<and> (\<exists>st'. setInput1 oc (Some ic) st = Inr st' \<and> input1 (allChips st' ! oc) = Some ic))"
proof -
  from assms have oc: "oc < length (allChips st)" and ic: "ic < length (allChips st)"
    and n: "chipId (allChips st ! oc) = outputId"
    by (simp_all add: findLast_SomeD)
  have s1: "\<exists>st'. setInput1 oc (Some ic) st = Inr st' \<and> input1 (allChips st' ! oc) = Some ic"
    using oc ic by (simp add: setInput1_def setOutput_def nth_list_update)
  have s2: "\<exists>st'. setInput2 oc (Some ic) st = Inr st' \<and> input2 (allChips st' ! oc) = Some ic
              \<and> input1 (allChips st' ! oc) = input1 (allChips st ! oc)"
    using oc ic by (simp add: setInput2_def setOutput_def nth_list_update)
  have first: "input1 (allChips st ! oc) = None"
    if r: "run ar cmds (init junk ids) = Some (Inr st)"
      and no: "\<forall>a. Connect a outputId \<notin> set cmds" for junk ids cmds
  proof -
    note f = run_frame [OF r, of oc]
    from f oc have "oc < length ids" by (simp add: init_fields)
    then have "input1 (allChips (init junk ids) ! oc) = None" by (rule init_fields)
    with f no n show ?thesis by simp
  qed
  show ?thesis
    using assms s1 s2 first by (auto simp: exec_def connect_def)
qed

theorem connect_fills_first_free_slot_witness:
  "findLast ''A1'' (init (0::real) [''I1'', ''I2'', ''A1'']) = Some 2
   \<and> findLast ''I1'' (init (0::real) [''I1'', ''I2'', ''A1'']) = Some 0
   \<and> run real_arith [SetInput ''I1'' 3] (init 0 [''I1'', ''I2'', ''A1''])
       = Some (Inr (setInputValue 0 3 (init 0 [''I1'', ''I2'', ''A1''])))
   \<and> input1 (allChips (setInputValue 0 3 (init (0::real) [''I1'', ''I2'', ''A1''])) ! 2) = None
   \<and> exec real_arith (Connect ''I1'' ''A1'') (init 0 [''I1'', ''I2'', ''A1''])
       = Some (setInput1 2 (Some 0) (init 0 [''I1'', ''I2'', ''A1'']))
   \<and> (\<exists>st'. setInput1 2 (Some 0) (init (0::real) [''I1'', ''I2'', ''A1'']) = Inr st'
         \<and> input1 (allChips st' ! 2) = Some 0)"
proof -
  let ?s = "init (0::real) [''I1'', ''I2'', ''A1'']"
  let ?s' = "setInputValue 0 3 ?s"
  have a: "findLast ''A1'' ?s = Some 2" and b: "findLast ''I1'' ?s = Some 0"
    and a': "findLast ''A1'' ?s' = Some 2" and b': "findLast ''I1'' ?s' = Some 0"
    by (simp_all add: findLast_def init_def new_Chip_def typeOf_def setInputValue_def)
  have r: "run real_arith [SetInput ''I1'' 3] ?s = Some (Inr ?s')"
    by (simp add: exec_def setInput_def findFirst_def init_def new_Chip_def typeOf_def)
  have t: "chipType (allChips ?s ! 2) = CHR ''A''" "input1 (allChips ?s ! 2) = None"
    "chipType (allChips ?s' ! 2) = CHR ''A''"
    by (simp_all add: init_def new_Chip_def typeOf_def)
  from connect_fills_first_free_slot [OF a' b', of real_arith] t r
  have "input1 (allChips ?s' ! 2) = None"
    by auto
  moreover from connect_fills_first_free_slot [OF a b, of real_arith] t
  have "exec real_arith (Connect ''I1'' ''A1'') ?s = Some (setInput1 2 (Some 0) ?s)
      \<and> (\<exists>st'. setInput1 2 (Some 0) ?s = Inr st' \<and> input1 (allChips st' ! 2) = Some 0)"
    by simp
  ultimately show ?thesis
    using a b r by simp
qed




text \<open>
  Claim C7. \<open>a.setInput1(b)\<close> binds \<open>b\<close> to the slot \<open>input1\<close> of \<open>a\<close> and makes
  \<open>a\<close> the output of \<open>b\<close>, whatever the slot and the output link held before; a later
  call \<open>c.setInput1(b)\<close> makes \<open>c\<close> the output of \<open>b\<close>, and a later call
  \<open>a.setInput1(d)\<close> overwrites the slot. The same holds of \<open>setInput2\<close> and
  \<open>input2\<close>.
\<close>

theorem setInput_binds_and_links:
  fixes st :: "'v state"
  assumes "a < length (allChips st)" and "b < length (allChips st)"
  shows "(\<exists>st1. setInput1 a (Some b) st = Inr st1
            \<and> input1 (allChips st1 ! a) = Some b \<and> output_chip (allChips st1 ! b) = Some a
            \<and> (\<forall>c d. c < length (allChips st) \<longrightarrow> d < length (allChips st) \<longrightarrow>
                  (\<exists>st3. setInput1 c (Some b) st1 = Inr st3
                          \<and> output_chip (allChips st3 ! b) = Some c)
                  \<and> (\<exists>st3. setInput1 a (Some d) st1 = Inr st3
                          \<and> input1 (allChips st3 ! a) = Some d)))
       \<and> (\<exists>st2. setInput2 a (Some b) st = Inr st2
            \<and> input2 (allChips st2 ! a) = Some b \<and> output_chip (allChips st2 ! b) = Some a
            \<and> (\<forall>c d. c < length (allChips st) \<longrightarrow> d < length (allChips st) \<longrightarrow>
                  (\<exists>st3. setInput2 c (Some b) st2 = Inr st3
                          \<and> output_chip (allChips st3 ! b) = Some c)
                  \<and> (\<exists>st3. setInput2 a (Some d) st2 = Inr st3
                          \<and> input2 (allChips st3 ! a) = Some d)))"
proof -
  have one: "\<exists>st1. setInput1 a (Some b) s = Inr st1
      \<and> input1 (allChips st1 ! a) = Some b \<and> output_chip (allChips st1 ! b) = Some a
      \<and> length (allChips st1) = length (allChips s)"
    if "a < length (allChips s)" and "b < length (allChips s)" for a b and s :: "'v state"
    using that by (simp add: setInput1_def setOutput_def nth_list_update)
  have two: "\<exists>st2. setInput2 a (Some b) s = Inr st2
      \<and> input2 (allChips st2 ! a) = Some b \<and> output_chip (allChips st2 ! b) = Some a
      \<and> length (allChips st2) = length (allChips s)"
    if "a < length (allChips s)" and "b < length (allChips s)" for a b and s :: "'v state"
    using that by (simp add: setInput2_def setOutput_def nth_list_update)
  from one [OF assms] obtain st1 where st1: "setInput1 a (Some b) st = Inr st1"
    "input1 (allChips st1 ! a) = Some b" "output_chip (allChips st1 ! b) = Some a"
    "length (allChips st1) = length (allChips st)"
    by blast
  from two [OF assms] obtain st2 where st2: "setInput2 a (Some b) st = Inr st2"
    "input2 (allChips st2 ! a) = Some b" "output_chip (allChips st2 ! b) = Some a"
    "length (allChips st2) = length (allChips st)"
    by blast
  have "(\<exists>st3. setInput1 c (Some b) st1 = Inr st3 \<and> output_chip (allChips st3 ! b) = Some c)
      \<and> (\<exists>st3. setInput1 a (Some d) st1 = Inr st3 \<and> input1 (allChips st3 ! a) = Some d)"
    if "c < length (allChips st)" and "d < length (allChips st)" for c d
    using one [of c st1 b] one [of a st1 d] that assms st1(4) by auto
  moreover have "(\<exists>st3. setInput2 c (Some b) st2 = Inr st3 \<and> output_chip (allChips st3 ! b) = Some c)
      \<and> (\<exists>st3. setInput2 a (Some d) st2 = Inr st3 \<and> input2 (allChips st3 ! a) = Some d)"
    if "c < length (allChips st)" and "d < length (allChips st)" for c d
    using two [of c st2 b] two [of a st2 d] that assms st2(4) by auto
  ultimately show ?thesis
    using st1(1-3) st2(1-3) by simp
qed

theorem setInput_binds_and_links_witness:
  "(1::nat) < length (allChips (init (0::real) [''I1'', ''A1'', ''S1'']))
   \<and> (0::nat) < length (allChips (init (0::real) [''I1'', ''A1'', ''S1'']))
   \<and> (\<exists>st1. setInput1 1 (Some 0) (init (0::real) [''I1'', ''A1'', ''S1'']) = Inr st1
            \<and> input1 (allChips st1 ! 1) = Some 0 \<and> output_chip (allChips st1 ! 0) = Some 1
            \<and> (\<exists>st3. setInput1 2 (Some 0) st1 = Inr st3
                    \<and> output_chip (allChips st3 ! 0) = Some 2))
   \<and> (\<exists>st2. setInput2 1 (Some 0) (init (0::real) [''I1'', ''A1'', ''S1'']) = Inr st2
            \<and> input2 (allChips st2 ! 1) = Some 0 \<and> output_chip (allChips st2 ! 0) = Some 1)"
proof -
  let ?s = "init (0::real) [''I1'', ''A1'', ''S1'']"
  have l: "1 < length (allChips ?s)" "0 < length (allChips ?s)" "2 < length (allChips ?s)"
    by (simp_all add: init_def)
  from setInput_binds_and_links [OF l(1,2)] l(3)
  have "(\<exists>st1. setInput1 1 (Some 0) ?s = Inr st1
            \<and> input1 (allChips st1 ! 1) = Some 0 \<and> output_chip (allChips st1 ! 0) = Some 1
            \<and> (\<exists>st3. setInput1 2 (Some 0) st1 = Inr st3
                    \<and> output_chip (allChips st3 ! 0) = Some 2))
      \<and> (\<exists>st2. setInput2 1 (Some 0) ?s = Inr st2
            \<and> input2 (allChips st2 ! 1) = Some 0 \<and> output_chip (allChips st2 ! 0) = Some 1)"
    by blast
  with l(1,2) show ?thesis
    by simp
qed

text \<open>
  Claim C8. A command \<open>A\<close> whose target id is found at an input chip changes
  nothing: the state after the command is the state before it.
\<close>

theorem connect_to_input_chip:
  assumes "findLast outputId st = Some oc"
    and "chipType (allChips st ! oc) = CHR ''I''"
  shows "exec ar (Connect inputId outputId) st = Some (Inr st)"
  using assms by (simp add: exec_def connect_def)

theorem connect_to_input_chip_witness:
  "findLast ''I2'' (init (0::real) [''I1'', ''I2'']) = Some 1
   \<and> chipType (allChips (init (0::real) [''I1'', ''I2'']) ! 1) = CHR ''I''
   \<and> exec real_arith (Connect ''I1'' ''I2'') (init 0 [''I1'', ''I2'']) = Some (Inr (init 0 [''I1'', ''I2'']))"
  using connect_to_input_chip [of "''I2''" "init 0 [''I1'', ''I2'']" 1 real_arith "''I1''"]
  by (simp add: init_def findLast_def new_Chip_def typeOf_def)

text \<open>
  Claim C9. A command \<open>I\<close> whose id is the id of some chip sets the field
  \<open>inputValue\<close> of the first chip, in the order of creation, with that id, of whatever
  type the chip is, and changes nothing else.
\<close>

theorem setInput_first_match:
  assumes "cid \<in> chipId ` set (allChips st)"
  shows "\<exists>j<length (allChips st).
           chipId (allChips st ! j) = cid
           \<and> (\<forall>i<j. chipId (allChips st ! i) \<noteq> cid)
           \<and> exec ar (SetInput cid v) st =
               Some (Inr (st\<lparr>allChips := (allChips st)[j := (allChips st ! j)\<lparr>inputValue := v\<rparr>]\<rparr>))"
proof -
  from assms have "findFirst cid st \<noteq> None"
    by (auto simp: findFirst_None_iff)
  then obtain j where j: "findFirst cid st = Some j"
    by auto
  then have "exec ar (SetInput cid v) st =
      Some (Inr (st\<lparr>allChips := (allChips st)[j := (allChips st ! j)\<lparr>inputValue := v\<rparr>]\<rparr>))"
    by (simp add: exec_def setInput_def setInputValue_def)
  with j show ?thesis
    unfolding findFirst_Some_iff by blast
qed

text \<open>Two chips with the id \<open>N1\<close>, both negation chips: the command sets the field of
  the first one, although it is not an input chip.\<close>

theorem setInput_first_match_witness:
  "''N1'' \<in> chipId ` set (allChips (init (0::real) [''N1'', ''I1'', ''N1'']))
   \<and> exec real_arith (SetInput ''N1'' 5) (init 0 [''N1'', ''I1'', ''N1''])
       = Some (Inr \<lparr>allChips =
                     [(new_Chip 0 CHR ''N'' ''N1'')\<lparr>inputValue := 5\<rparr>,
                      new_Chip 0 CHR ''I'' ''I1'', new_Chip 0 CHR ''N'' ''N1''],
                    cout = []\<rparr>)"
  using setInput_first_match [of "''N1''" "init 0 [''N1'', ''I1'', ''N1'']" real_arith 5]
  by (auto simp: init_def new_Chip_def typeOf_def less_Suc_eq)

text \<open>
  Claim C10. A command \<open>O\<close> whose id is the id of no chip prints the marker line
  and does nothing else: no result line, and no chip is changed.
\<close>

theorem query_unknown_id:
  assumes "\<forall>c \<in> set (allChips st). chipId c \<noteq> cid"
  shows "exec ar (QueryOutput cid) st = Some (Inr (st\<lparr>cout := cout st @ [Text ''Computation Starts '']\<rparr>))"
proof -
  have "findFirst cid (emit (Text ''Computation Starts '') st) = None"
    using assms by (simp add: findFirst_None_iff)
  then show ?thesis
    by (simp add: exec_def queryOutput_def Let_def emit_def)
qed

theorem query_unknown_id_witness:
  "chipId (new_Chip (0::real) CHR ''I'' ''I1'') \<noteq> ''O9''
   \<and> exec real_arith (QueryOutput ''O9'') (init 0 [''I1''])
       = Some (Inr \<lparr>allChips = [new_Chip 0 CHR ''I'' ''I1''], cout = [Text ''Computation Starts '']\<rparr>)"
  using query_unknown_id [of "init 0 [''I1'']" "''O9''" real_arith]
  by (simp add: init_def new_Chip_def typeOf_def)

text \<open>
  Claim C3 says that the final listing prints the line of every chip that is not an
  output chip before the line of any output chip, and no line twice. The first pass of the
  program skips the chip with the id \<open>O50\<close> only, so that an output chip with another id
  is printed in both passes: with the chips \<open>O1\<close> and \<open>I1\<close> and the command
  \<open>A I1 O1\<close>, the line of \<open>O1\<close> comes before the line of \<open>I1\<close> and once more after
  it.
\<close>

theorem listing_prints_output_chip_twice:
  "main real_arith 0 [''O1'', ''I1''] [Connect ''I1'' ''O1''] =
     Some (Inr [Text ''***** Showing the connections that were established'',
                Text ''O1, Input 1 = I1'', Text ''I1, Output = O1'', Text ''O1, Input 1 = I1''])"
  by (simp add: main_def init_def new_Chip_def typeOf_def exec_def connect_def findLast_def
      setInput1_def setOutput_def showConnections_def display_def idOrNone_def getId_def emit_def Let_def)

end
